theory Spec2Isabelle
  imports Main "HOL-Library.Sublist"
begin

section \<open>Strings\<close>

text \<open>
  A Python \<open>str\<close> is modelled as a \<open>string\<close>; a \<open>char\<close> stands for a code point
  below 256. The host is POSIX: \<open>os.sep\<close> is the slash and
  \<open>os.path.normcase\<close> is the identity.
\<close>

definition os_sep :: char where
  "os_sep = CHR ''/''"

text \<open>The characters below 256 for which \<open>str.isspace\<close> holds.\<close>

definition isspace :: "char \<Rightarrow> bool" where
  "isspace c \<longleftrightarrow> c \<in> set [CHR 0x09, CHR 0x0A, CHR 0x0B, CHR 0x0C, CHR 0x0D,
     CHR 0x1C, CHR 0x1D, CHR 0x1E, CHR 0x1F, CHR 0x20, CHR 0x85, CHR 0xA0]"

text \<open>\<open>s.strip()\<close>\<close>

definition str_strip :: "string \<Rightarrow> string" where
  "str_strip s = rev (dropWhile isspace (rev (dropWhile isspace s)))"

text \<open>\<open>s.rstrip(os.sep)\<close>\<close>

definition rstrip_sep :: "string \<Rightarrow> string" where
  "rstrip_sep s = rev (dropWhile (\<lambda>c. c = os_sep) (rev s))"

text \<open>\<open>s.replace('/', os.sep)\<close>\<close>

definition replace_slash :: "string \<Rightarrow> string" where
  "replace_slash s = map (\<lambda>c. if c = CHR ''/'' then os_sep else c) s"

text \<open>\<open>s.lower()\<close>: the upper-case letters below 256 are A-Z and 0xC0-0xDE without 0xD7.\<close>

definition lower_char :: "char \<Rightarrow> char" where
  "lower_char c =
     (let n = (of_char c :: nat)
      in if (65 \<le> n \<and> n \<le> 90) \<or> (192 \<le> n \<and> n \<le> 222 \<and> n \<noteq> 215)
         then char_of (n + 32) else c)"

definition str_lower :: "string \<Rightarrow> string" where
  "str_lower s = map lower_char s"

text \<open>\<open>s.startswith(t)\<close>\<close>

fun startswith :: "string \<Rightarrow> string \<Rightarrow> bool" where
  "startswith s [] = True"
| "startswith [] (d # t) = False"
| "startswith (c # s) (d # t) = (c = d \<and> startswith s t)"

text \<open>\<open>sub in s\<close>\<close>

fun str_in :: "string \<Rightarrow> string \<Rightarrow> bool" where
  "str_in sub [] = (sub = [])"
| "str_in sub (c # s) = (startswith (c # s) sub \<or> str_in sub s)"

text \<open>\<open>s.split(d)\<close>: never the empty list.\<close>

fun str_split :: "char \<Rightarrow> string \<Rightarrow> string list" where
  "str_split d [] = [[]]"
| "str_split d (c # s) =
     (if c = d then [] # str_split d s
      else (case str_split d s of
              [] \<Rightarrow> [[c]]
            | w # ws \<Rightarrow> (c # w) # ws))"

text \<open>\<open>d.join(xs)\<close>\<close>

fun str_join :: "string \<Rightarrow> string list \<Rightarrow> string" where
  "str_join d [] = []"
| "str_join d [x] = x"
| "str_join d (x # y # xs) = x @ d @ str_join d (y # xs)"

text \<open>
  Iterating over a file opened in text mode: the lines of the text, each with its
  newline, the last one possibly without.
\<close>

fun file_lines :: "string \<Rightarrow> string list" where
  "file_lines [] = []"
| "file_lines (c # s) =
     (if c = CHR 0x0A then [c] # file_lines s
      else (case file_lines s of
              [] \<Rightarrow> [[c]]
            | l # ls \<Rightarrow> (c # l) # ls))"

text \<open>\<open>s.find(c, k)\<close>, with \<open>None\<close> for -1.\<close>

definition str_find :: "char \<Rightarrow> nat \<Rightarrow> string \<Rightarrow> nat option" where
  "str_find c k s =
     (let r = dropWhile (\<lambda>x. x \<noteq> c) (drop k s)
      in if r = [] then None else Some (length s - length r))"

section \<open>posixpath\<close>

text \<open>\<open>os.path.join(a, b)\<close>\<close>

definition os_path_join :: "string \<Rightarrow> string \<Rightarrow> string" where
  "os_path_join a b =
     (if startswith b [os_sep] then b
      else if a = [] \<or> last a = os_sep then a @ b
      else a @ [os_sep] @ b)"

text \<open>\<open>os.path.join(*xs)\<close> for a non-empty \<open>xs\<close>\<close>

fun join_all :: "string list \<Rightarrow> string" where
  "join_all [] = []"
| "join_all (x # xs) = foldl os_path_join x xs"

text \<open>\<open>os.path.basename(p)\<close>: what follows the last slash.\<close>

definition os_path_basename :: "string \<Rightarrow> string" where
  "os_path_basename p = last (str_split os_sep p)"

text \<open>\<open>os.path.normpath(p)\<close>\<close>

definition normpath_step :: "bool \<Rightarrow> string list \<Rightarrow> string \<Rightarrow> string list" where
  "normpath_step initial_slashes new_comps part =
     (if part = [] \<or> part = ''.'' then new_comps
      else if part \<noteq> ''..'' \<or> (\<not> initial_slashes \<and> new_comps = [])
              \<or> (new_comps \<noteq> [] \<and> last new_comps = ''..'')
           then new_comps @ [part]
      else if new_comps \<noteq> [] then butlast new_comps
      else new_comps)"

definition os_path_normpath :: "string \<Rightarrow> string" where
  "os_path_normpath p =
     (if p = [] then ''.''
      else
        let initial_slashes =
              (if startswith p [os_sep] then
                 (if startswith p [os_sep, os_sep] \<and> \<not> startswith p [os_sep, os_sep, os_sep]
                  then 2 else 1)
               else (0::nat));
            comps = foldl (normpath_step (0 < initial_slashes)) [] (str_split os_sep p);
            q = replicate initial_slashes os_sep @ str_join [os_sep] comps
        in if q = [] then ''.'' else q)"

section \<open>fnmatch\<close>

text \<open>
  \<open>fnmatch.translate\<close> turns a pattern into a regular expression over four kinds of
  piece: \<open>*\<close>, \<open>?\<close>, a quoted character, and a bracket expression, here a flag for
  the negation, the characters it lists and the ranges it spans.
\<close>

datatype piece = STAR | ANY | LIT char | SET bool string "(char \<times> char) list"

text \<open>
  The index of the bracket that closes the expression whose text starts \<open>p\<close>: a
  leading \<open>!\<close> and a bracket right after it do not close.
\<close>

definition closing :: "string \<Rightarrow> nat option" where
  "closing p =
     (let j = (if 0 < length p \<and> p ! 0 = CHR ''!'' then 1 else 0);
          j = (if j < length p \<and> p ! j = CHR '']'' then j + 1 else j)
      in str_find (CHR '']'') j p)"

text \<open>The chunks between the hyphens that make ranges; the next hyphen is looked for from \<open>k\<close>.\<close>

function chunks_from :: "nat \<Rightarrow> string \<Rightarrow> string list" where
  "chunks_from k s =
     (case str_find (CHR ''-'') k s of
        None \<Rightarrow> [s]
      | Some h \<Rightarrow> take h s # chunks_from 2 (drop (Suc h) s))"
  by pat_completeness auto
termination
proof (relation "measure (\<lambda>(k, s). length s)")
  show "wf (measure (\<lambda>(k, s). length s))" by simp
next
  fix k :: nat and s :: string and h :: nat
  assume a: "str_find (CHR ''-'') k s = Some h"
  define r where "r = dropWhile (\<lambda>x. x \<noteq> CHR ''-'') (drop k s)"
  have "length r \<le> length (drop k s)"
    unfolding r_def by (rule length_dropWhile_le)
  then have le: "length r \<le> length s" by simp
  from a have "r \<noteq> []"
    by (auto simp: str_find_def Let_def r_def split: if_splits)
  then have "0 < length r" by simp
  with le have "0 < length s" by arith
  then show "((2, drop (Suc h) s), (k, s)) \<in> measure (\<lambda>(k, s). length s)" by simp
qed

text \<open>An empty last chunk: the hyphen before it is a plain character of the chunk before.\<close>

definition close_chunks :: "string list \<Rightarrow> string list" where
  "close_chunks cs =
     (if cs \<noteq> [] \<and> last cs = [] \<and> butlast cs \<noteq> []
      then butlast (butlast cs) @ [last (butlast cs) @ ''-'']
      else cs)"

text \<open>A range whose start is above its end is removed, from the right to the left.\<close>

definition merge_chunk :: "string \<Rightarrow> string list \<Rightarrow> string list" where
  "merge_chunk c acc =
     (case acc of
        [] \<Rightarrow> [c]
      | d # ds \<Rightarrow>
          if c \<noteq> [] \<and> d \<noteq> [] \<and> (of_char (last c) :: nat) > of_char (hd d)
          then (butlast c @ tl d) # ds
          else c # d # ds)"

definition remove_empty_ranges :: "string list \<Rightarrow> string list" where
  "remove_empty_ranges cs = foldr merge_chunk cs []"

fun chunk_ranges :: "string list \<Rightarrow> (char \<times> char) list" where
  "chunk_ranges (c # d # cs) =
     (if c \<noteq> [] \<and> d \<noteq> [] then [(last c, hd d)] else []) @ chunk_ranges (d # cs)"
| "chunk_ranges cs = []"

definition bracket :: "string \<Rightarrow> piece" where
  "bracket stuff =
     (let chunks =
            (if CHR ''-'' \<notin> set stuff then [stuff]
             else remove_empty_ranges (close_chunks
                    (chunks_from (if startswith stuff ''!'' then 2 else 1) stuff)));
          neg = startswith (concat chunks) ''!'';
          chunks = (if neg then (case chunks of [] \<Rightarrow> [] | c # cs \<Rightarrow> tl c # cs) else chunks)
      in SET neg (concat chunks) (chunk_ranges chunks))"

function translate :: "string \<Rightarrow> piece list" where
  "translate [] = []"
| "translate (c # p) =
     (if c = CHR ''*'' then STAR # translate (dropWhile (\<lambda>x. x = CHR ''*'') p)
      else if c = CHR ''?'' then ANY # translate p
      else if c = CHR ''['' then
        (case closing p of
           None \<Rightarrow> LIT c # translate p
         | Some j \<Rightarrow> bracket (take j p) # translate (drop (Suc j) p))
      else LIT c # translate p)"
  by pat_completeness auto
termination
  by (relation "measure length") (auto simp: less_Suc_eq_le length_dropWhile_le)

definition in_set :: "bool \<Rightarrow> string \<Rightarrow> (char \<times> char) list \<Rightarrow> char \<Rightarrow> bool" where
  "in_set neg cs rs x \<longleftrightarrow>
     (x \<in> set cs \<or> (\<exists>(lo, hi) \<in> set rs. (of_char lo :: nat) \<le> of_char x \<and> (of_char x :: nat) \<le> of_char hi))
       \<noteq> neg"

text \<open>\<open>re.match\<close> of the translated pattern, up to the end of the name.\<close>

fun re_match :: "piece list \<Rightarrow> string \<Rightarrow> bool" where
  "re_match [] s = (s = [])"
| "re_match (STAR # ps) [] = re_match ps []"
| "re_match (STAR # ps) (c # s) = (re_match ps (c # s) \<or> re_match (STAR # ps) s)"
| "re_match (ANY # ps) [] = False"
| "re_match (ANY # ps) (c # s) = re_match ps s"
| "re_match (LIT x # ps) [] = False"
| "re_match (LIT x # ps) (c # s) = (c = x \<and> re_match ps s)"
| "re_match (SET neg cs rs # ps) [] = False"
| "re_match (SET neg cs rs # ps) (c # s) = (in_set neg cs rs c \<and> re_match ps s)"

text \<open>\<open>fnmatch.fnmatch(name, pat)\<close>\<close>

definition fnmatch :: "string \<Rightarrow> string \<Rightarrow> bool" where
  "fnmatch name pat = re_match (translate pat) name"

section \<open>The file system\<close>

text \<open>
  What a text-mode read of a regular file gives: the decoded text (as \<open>f.read()\<close>
  returns it), or the description \<open>str(e)\<close> of the \<open>OSError\<close> or
  \<open>UnicodeDecodeError\<close> that \<open>open\<close> or \<open>read\<close> raises. The locale's encoding
  is taken to be UTF-8, so that a read with the default encoding and a read with
  \<open>encoding='utf-8'\<close> agree.
\<close>

datatype read_result = Text string | Unreadable string

text \<open>
  A node is a regular file or a directory; a directory holds its entries in the order
  in which \<open>os.scandir\<close> lists them. There are no symbolic links.
\<close>

datatype fsnode = File read_result | Dir "(string \<times> fsnode) list"

text \<open>The node that a list of names leads to.\<close>

fun lookup :: "fsnode \<Rightarrow> string list \<Rightarrow> fsnode option" where
  "lookup n [] = Some n"
| "lookup (File r) (c # cs) = None"
| "lookup (Dir es) (c # cs) =
     (case map_of es c of
        None \<Rightarrow> None
      | Some n \<Rightarrow> lookup n cs)"

text \<open>
  The node that a normalised absolute path names (the empty names that a split
  at the slashes leaves are dropped).
\<close>

definition resolve :: "fsnode \<Rightarrow> string \<Rightarrow> fsnode option" where
  "resolve r p = lookup r (filter (\<lambda>c. c \<noteq> []) (str_split os_sep p))"

text \<open>
  The state the function reads: the current working directory, as \<open>os.getcwd()\<close>
  returns it (absolute and normalised), and the tree under the root directory.
\<close>

record os_state =
  getcwd :: string
  root :: fsnode

text \<open>A name that a directory entry can have.\<close>

definition valid_name :: "string \<Rightarrow> bool" where
  "valid_name n \<longleftrightarrow> n \<noteq> [] \<and> os_sep \<notin> set n \<and> n \<noteq> ''.'' \<and> n \<noteq> ''..''"

text \<open>The entries of a directory, and of the directories below, have valid names, each once.\<close>

fun wf_entries :: "(string \<times> fsnode) list \<Rightarrow> bool" where
  "wf_entries [] = True"
| "wf_entries ((n, File r) # es) =
     (valid_name n \<and> n \<notin> set (map fst es) \<and> wf_entries es)"
| "wf_entries ((n, Dir ds) # es) =
     (valid_name n \<and> n \<notin> set (map fst es) \<and> wf_entries ds \<and> wf_entries es)"

section \<open>The workspace context\<close>

text \<open>An element of \<open>context\<close>: the dictionary with the keys \<open>path\<close> and \<open>content\<close>.\<close>

record context_entry =
  path :: string
  content :: string

text \<open>
  The dictionary returned: \<open>{"success": True, "context": ...}\<close> or
  \<open>{"success": False, "error": ...}\<close>.
\<close>

datatype result = Success "context_entry list" | Failure string

text \<open>
  The patterns of the file \<open>.gitignore\<close> of the current working directory. An exception
  raised here reaches the handler at the end of \<open>get_workspace_context\<close>; opening a
  directory raises \<open>IsADirectoryError\<close>.
\<close>

definition gitignore_path :: "os_state \<Rightarrow> string" where
  "gitignore_path w = os_path_join (getcwd w) ''.gitignore''"

definition load_ignore_patterns :: "os_state \<Rightarrow> string + string list" where
  "load_ignore_patterns w =
     (case resolve (root w) (gitignore_path w) of
           None \<Rightarrow> Inr []
         | Some (File (Text t)) \<Rightarrow>
             Inr [replace_slash (str_strip line). line \<leftarrow> file_lines t,
                    str_strip line \<noteq> [] \<and> \<not> startswith line ''#'']
         | Some (File (Unreadable msg)) \<Rightarrow> Inl msg
         | Some (Dir es) \<Rightarrow>
             Inl (''[Errno 21] Is a directory: '' @ [CHR 0x27] @ gitignore_path w @ [CHR 0x27]))"

definition builtin_excluded :: "string list" where
  "builtin_excluded = [''.git'', ''.pyc'', ''.env'', ''__pycache__'']"

text \<open>
  \<open>os.walk\<close> is at the directory that the names \<open>rs\<close> lead to from \<open>full_path\<close>;
  \<open>rel_root\<close> is \<open>os.path.relpath(root, full_path)\<close>.
\<close>

definition rel_root :: "string list \<Rightarrow> string" where
  "rel_root rs = (if rs = [] then ''.'' else join_all rs)"

text \<open>The test that removes the directory \<open>d\<close> from \<open>dirs\<close>.\<close>

definition dir_ignored :: "string list \<Rightarrow> string list \<Rightarrow> string \<Rightarrow> bool" where
  "dir_ignored ignore_patterns rs d \<longleftrightarrow>
     (\<exists>p \<in> set ignore_patterns.
        fnmatch (os_path_join (rel_root rs) d) p \<or> fnmatch d (rstrip_sep p))"

text \<open>The first test on a file, on \<open>os.path.join(rel_root, file)\<close> and on its name.\<close>

definition file_ignored :: "string list \<Rightarrow> string list \<Rightarrow> string \<Rightarrow> bool" where
  "file_ignored ignore_patterns rs file \<longleftrightarrow>
     (\<exists>p \<in> set ignore_patterns. fnmatch (os_path_join (rel_root rs) file) p)
     \<or> (\<exists>p \<in> set ignore_patterns. fnmatch file (rstrip_sep p))
     \<or> (\<exists>pattern \<in> set builtin_excluded. str_in pattern (str_lower file))"

text \<open>The second test, on the parts of \<open>os.path.relpath(file_path, path)\<close>.\<close>

definition part_ignored :: "string list \<Rightarrow> string \<Rightarrow> bool" where
  "part_ignored ignore_patterns rel_path \<longleftrightarrow>
     (\<exists>part \<in> set (str_split os_sep rel_path). \<exists>p \<in> set ignore_patterns. fnmatch part p)"

text \<open>The loop over \<open>files\<close> in one directory.\<close>

fun visit_files :: "string list \<Rightarrow> string list \<Rightarrow> (string \<times> fsnode) list \<Rightarrow> context_entry list" where
  "visit_files ignore_patterns rs [] = []"
| "visit_files ignore_patterns rs ((file, Dir ds) # es) = visit_files ignore_patterns rs es"
| "visit_files ignore_patterns rs ((file, File r) # es) =
     (if file_ignored ignore_patterns rs file then visit_files ignore_patterns rs es
      else
        let rel_path = join_all (rs @ [file])
        in if part_ignored ignore_patterns rel_path then visit_files ignore_patterns rs es
           else (case r of
                   Text t \<Rightarrow>
                     \<lparr>path = rel_path, content = t\<rparr> # visit_files ignore_patterns rs es
                 | Unreadable msg \<Rightarrow> visit_files ignore_patterns rs es))"

text \<open>
  The loop over \<open>os.walk(full_path)\<close>, top-down: the files of a directory, then each of
  its directories left in \<open>dirs\<close>, in the order of the listing.
\<close>

fun walk_dirs :: "string list \<Rightarrow> string list \<Rightarrow> (string \<times> fsnode) list \<Rightarrow> context_entry list" where
  "walk_dirs ignore_patterns rs [] = []"
| "walk_dirs ignore_patterns rs ((d, File r) # es) = walk_dirs ignore_patterns rs es"
| "walk_dirs ignore_patterns rs ((d, Dir ds) # es) =
     (if dir_ignored ignore_patterns rs d then []
      else visit_files ignore_patterns (rs @ [d]) ds @ walk_dirs ignore_patterns (rs @ [d]) ds)
     @ walk_dirs ignore_patterns rs es"

definition os_walk :: "string list \<Rightarrow> string list \<Rightarrow> (string \<times> fsnode) list \<Rightarrow> context_entry list" where
  "os_walk ignore_patterns rs es =
     visit_files ignore_patterns rs es @ walk_dirs ignore_patterns rs es"

text \<open>
  \<open>get_workspace_context(path)\<close>, with \<open>full_path\<close> for
  \<open>os.path.abspath(os.path.join(os.getcwd(), path))\<close>, which is absolute before it is
  normalised. A \<open>full_path\<close> that names nothing is not a file, and \<open>os.walk\<close> yields
  nothing for it (it ignores the error of the listing).
\<close>

definition full_path :: "os_state \<Rightarrow> string \<Rightarrow> string" where
  "full_path w path_arg = os_path_normpath (os_path_join (getcwd w) path_arg)"

definition get_workspace_context :: "os_state \<Rightarrow> string \<Rightarrow> result" where
  "get_workspace_context w path_arg =
     (case load_ignore_patterns w of
        Inl msg \<Rightarrow> Failure msg
      | Inr ignore_patterns \<Rightarrow>
          case resolve (root w) (full_path w path_arg) of
               Some (File (Text t)) \<Rightarrow>
                 Success [\<lparr>path = os_path_basename (full_path w path_arg), content = t\<rparr>]
             | Some (File (Unreadable msg)) \<Rightarrow>
                 Failure ''Cannot read file: binary or unreadable''
             | Some (Dir es) \<Rightarrow> Success (os_walk ignore_patterns [] es)
             | None \<Rightarrow> Success [])"

section \<open>Notions used in the statements\<close>

text \<open>A file system whose directories are all well formed.\<close>

definition wf_fs :: "fsnode \<Rightarrow> bool" where
  "wf_fs n = (case n of File r \<Rightarrow> True | Dir es \<Rightarrow> wf_entries es)"

text \<open>
  The rule set as the specification words it: the lines that are neither blank nor
  comments, each trimmed, with the slashes turned into the separator of the host.
\<close>

definition is_blank :: "string \<Rightarrow> bool" where
  "is_blank l \<longleftrightarrow> (\<forall>c \<in> set l. isspace c)"

definition is_comment :: "string \<Rightarrow> bool" where
  "is_comment l \<longleftrightarrow> l \<noteq> [] \<and> hd l = CHR ''#''"

definition spec_patterns :: "string \<Rightarrow> string list" where
  "spec_patterns t =
     map (\<lambda>l. replace_slash (str_strip l))
       (filter (\<lambda>l. \<not> is_blank l \<and> \<not> is_comment l) (file_lines t))"

text \<open>A directory without the files that cannot be read.\<close>

fun readable_only :: "(string \<times> fsnode) list \<Rightarrow> (string \<times> fsnode) list" where
  "readable_only [] = []"
| "readable_only ((n, File (Text t)) # es) = (n, File (Text t)) # readable_only es"
| "readable_only ((n, File (Unreadable msg)) # es) = readable_only es"
| "readable_only ((n, Dir ds) # es) = (n, Dir (readable_only ds)) # readable_only es"

text \<open>
  The entry \<open>e\<close> reports the readable file that the names \<open>cs\<close> lead to from the
  directory \<open>es\<close>, itself reached by \<open>rs\<close>: no directory on the way has a name that a
  pattern matches, and the first test lets the file through.
\<close>

definition reported :: "string list \<Rightarrow> string list \<Rightarrow> (string \<times> fsnode) list \<Rightarrow> context_entry \<Rightarrow> string list \<Rightarrow> bool" where
  "reported pats rs es e cs \<longleftrightarrow>
     cs \<noteq> []
     \<and> lookup (Dir es) cs = Some (File (Text (content e)))
     \<and> path e = join_all (rs @ cs)
     \<and> hd cs \<in> set (map fst es)
     \<and> (\<forall>c \<in> set cs. valid_name c)
     \<and> (\<forall>d \<in> set (butlast cs). \<forall>p \<in> set pats. \<not> fnmatch d (rstrip_sep p))
     \<and> \<not> file_ignored pats (rs @ butlast cs) (last cs)"

text \<open>The description of a \<open>PermissionError\<close> on the path \<open>p\<close>.\<close>

definition permission_denied :: "string \<Rightarrow> string" where
  "permission_denied p = ''[Errno 13] Permission denied: '' @ [CHR 0x27] @ p @ [CHR 0x27]"

section \<open>Example states\<close>

text \<open>The working directory \<open>/proj\<close> holds the one file \<open>a.txt\<close>.\<close>

definition state_plain :: os_state where
  "state_plain =
     \<lparr>getcwd = ''/proj'',
      root = Dir [(''proj'', Dir [(''a.txt'', File (Text ''hello''))])]\<rparr>"

text \<open>
  The working directory holds \<open>a.txt\<close>, a \<open>.gitignore\<close> whose only line is \<open>b/\<close>, and
  the directory \<open>b\<close> with the file \<open>c.txt\<close>.
\<close>

definition state_b :: os_state where
  "state_b =
     \<lparr>getcwd = ''/proj'',
      root = Dir [(''proj'', Dir
        [(''a.txt'', File (Text ''hello'')),
         (''.gitignore'', File (Text (''b/'' @ [CHR 0x0A]))),
         (''b'', Dir [(''c.txt'', File (Text ''c''))])])]\<rparr>"

text \<open>The working directory holds the one file \<open>secret.env\<close>.\<close>

definition state_env :: os_state where
  "state_env =
     \<lparr>getcwd = ''/proj'',
      root = Dir [(''proj'', Dir [(''secret.env'', File (Text ''KEY=1''))])]\<rparr>"

text \<open>
  A larger tree: the \<open>.gitignore\<close> of the working directory has a comment, a blank line
  and the pattern \<open>b/\<close> between spaces; the directory \<open>sub\<close> has a \<open>.gitignore\<close> of its
  own, a file that cannot be read, and a directory \<open>b\<close>.
\<close>

definition sub_entries :: "(string \<times> fsnode) list" where
  "sub_entries =
     [(''.gitignore'', File (Text ''k.txt'')),
      (''k.txt'', File (Text ''kk'')),
      (''data.bin'', File (Unreadable ''invalid start byte'')),
      (''b'', Dir [(''z.txt'', File (Text ''zz''))])]"

definition proj_entries :: "(string \<times> fsnode) list" where
  "proj_entries =
     [(''a.txt'', File (Text ''hello'')),
      (''.gitignore'', File (Text (''# build'' @ [CHR 0x0A] @ [CHR 0x0A] @ ''  b/  '' @ [CHR 0x0A]))),
      (''b'', Dir [(''c.txt'', File (Text ''c'')), (''d'', Dir [(''e.txt'', File (Text ''e''))])]),
      (''sub'', Dir sub_entries),
      (''secret.env'', File (Text ''KEY=1''))]"

definition state_nested :: os_state where
  "state_nested = \<lparr>getcwd = ''/proj'', root = Dir [(''proj'', Dir proj_entries)]\<rparr>"

text \<open>The only line of the \<open>.gitignore\<close> is \<open>*.txt\<close>, beside the file \<open>a.txt\<close>.\<close>

definition state_star :: os_state where
  "state_star =
     \<lparr>getcwd = ''/proj'',
      root = Dir [(''proj'', Dir
        [(''.gitignore'', File (Text (''*.txt'' @ [CHR 0x0A]))),
         (''a.txt'', File (Text ''hello''))])]\<rparr>"

text \<open>
  The \<open>.gitignore\<close> of the working directory cannot be opened; \<open>a.txt\<close> and
  \<open>secret.env\<close> are text, \<open>data.bin\<close> is not.
\<close>

definition state_locked :: os_state where
  "state_locked =
     \<lparr>getcwd = ''/proj'',
      root = Dir [(''proj'', Dir
        [(''.gitignore'', File (Unreadable (permission_denied ''/proj/.gitignore''))),
         (''a.txt'', File (Text ''hello'')),
         (''data.bin'', File (Unreadable ''invalid start byte'')),
         (''secret.env'', File (Text ''KEY=1''))])]\<rparr>"

section \<open>Paths and names\<close>

lemma str_split_not_Nil: "str_split d s \<noteq> []"
  by (induction s) (auto split: list.splits)

lemma str_split_append:
  "str_split d (a @ d # b) = str_split d a @ str_split d b"
proof (induction a)
  case Nil
  show ?case by simp
next
  case (Cons c a)
  show ?case
  proof (cases "c = d")
    case True
    with Cons show ?thesis by simp
  next
    case False
    obtain w ws where w: "str_split d a = w # ws"
      using str_split_not_Nil [of d a] by (cases "str_split d a") auto
    with False Cons show ?thesis by simp
  qed
qed

lemma str_split_no_sep: "d \<notin> set s \<Longrightarrow> str_split d s = [s]"
  by (induction s) auto

lemma startswith_sep: "startswith s [c] \<longleftrightarrow> s \<noteq> [] \<and> hd s = c"
  by (cases s) auto

lemma valid_name_no_start: "valid_name n \<Longrightarrow> \<not> startswith n [os_sep]"
  by (cases n) (auto simp: valid_name_def)

lemma join_all_snoc: "xs \<noteq> [] \<Longrightarrow> join_all (xs @ [x]) = os_path_join (join_all xs) x"
  by (cases xs) auto

lemma join_all_valid:
  "xs \<noteq> [] \<Longrightarrow> \<forall>c \<in> set xs. valid_name c \<Longrightarrow>
     str_split os_sep (join_all xs) = xs \<and> join_all xs \<noteq> [] \<and> last (join_all xs) \<noteq> os_sep"
proof (induction xs rule: rev_induct)
  case Nil
  then show ?case by simp
next
  case (snoc x xs)
  have vx: "valid_name x" using snoc.prems by simp
  then have x: "x \<noteq> []" "os_sep \<notin> set x" "\<not> startswith x [os_sep]"
    using valid_name_no_start [of x] by (auto simp: valid_name_def)
  from x have lx: "last x \<noteq> os_sep"
    by (metis last_in_set)
  show ?case
  proof (cases "xs = []")
    case True
    with x lx show ?thesis by (simp add: str_split_no_sep)
  next
    case False
    with snoc have ih: "str_split os_sep (join_all xs) = xs" "join_all xs \<noteq> []"
      "last (join_all xs) \<noteq> os_sep" by auto
    have j: "join_all (xs @ [x]) = join_all xs @ os_sep # x"
      using False ih x by (simp add: join_all_snoc os_path_join_def)
    show ?thesis
      using x lx ih by (simp add: j str_split_append str_split_no_sep)
  qed
qed

lemma join_all_inj:
  assumes "xs \<noteq> []" "ys \<noteq> []" "\<forall>c \<in> set xs. valid_name c" "\<forall>c \<in> set ys. valid_name c"
    and "join_all xs = join_all ys"
  shows "xs = ys"
  using assms join_all_valid [of xs] join_all_valid [of ys] by metis

lemma basename_join_all:
  "xs \<noteq> [] \<Longrightarrow> \<forall>c \<in> set xs. valid_name c \<Longrightarrow> os_path_basename (join_all xs) = last xs"
  by (simp add: os_path_basename_def join_all_valid)

lemma wf_entries_names:
  "wf_entries es \<Longrightarrow> distinct (map fst es) \<and> (\<forall>n \<in> set (map fst es). valid_name n)"
  by (induction es rule: wf_entries.induct) auto

lemma wf_entries_Dir: "wf_entries es \<Longrightarrow> (n, Dir ds) \<in> set es \<Longrightarrow> wf_entries ds"
  by (induction es rule: wf_entries.induct) auto

lemma wf_entries_map_of: "wf_entries es \<Longrightarrow> (n, x) \<in> set es \<Longrightarrow> map_of es n = Some x"
  using wf_entries_names [of es] by simp

lemma visit_files_member:
  "e \<in> set (visit_files pats rs es) \<Longrightarrow>
     \<exists>file t. (file, File (Text t)) \<in> set es
       \<and> e = \<lparr>path = join_all (rs @ [file]), content = t\<rparr>
       \<and> \<not> file_ignored pats rs file
       \<and> \<not> part_ignored pats (join_all (rs @ [file]))"
proof (induction es)
  case Nil
  then show ?case by simp
next
  case (Cons a es)
  obtain n x where a: "a = (n, x)" by (cases a)
  show ?case
  proof (cases "e \<in> set (visit_files pats rs es)")
    case True
    from Cons.IH [OF True] show ?thesis by auto
  next
    case False
    with Cons.prems a show ?thesis
      by (cases x) (auto simp: Let_def split: if_splits read_result.splits)
  qed
qed

lemma visit_files_reported:
  assumes "wf_entries es" and "e \<in> set (visit_files pats rs es)"
  shows "\<exists>file. reported pats rs es e [file]"
proof -
  from visit_files_member [OF assms(2)] obtain f t where
    f: "(f, File (Text t)) \<in> set es" "e = \<lparr>path = join_all (rs @ [f]), content = t\<rparr>"
       "\<not> file_ignored pats rs f" by blast
  from f(1) assms(1) have "map_of es f = Some (File (Text t))" "valid_name f"
    using wf_entries_names [of es] by (auto simp: wf_entries_map_of)
  with f have "reported pats rs es e [f]"
    by (force simp: reported_def)
  then show ?thesis ..
qed

lemma reported_Dir:
  assumes "reported pats (rs @ [d]) ds e cs" and "valid_name d"
    and "\<not> dir_ignored pats rs d"
  shows "reported pats rs ((d, Dir ds) # es) e (d # cs)"
  using assms by (auto simp: reported_def dir_ignored_def butlast_append)

lemma reported_Cons:
  assumes "reported pats rs es e cs" and "n \<notin> set (map fst es)"
  shows "reported pats rs ((n, x) # es) e cs"
proof -
  from assms have "hd cs \<noteq> n" and "cs \<noteq> []" by (auto simp: reported_def)
  then obtain c cs' where cs: "cs = c # cs'" "c \<noteq> n" by (cases cs) auto
  with assms show ?thesis by (auto simp: reported_def)
qed

lemma walk_dirs_reported:
  "wf_entries es \<Longrightarrow> e \<in> set (walk_dirs pats rs es) \<Longrightarrow>
     \<exists>cs. reported pats rs es e cs \<and> 2 \<le> length cs"
proof (induction pats rs es rule: walk_dirs.induct)
  case (1 pats rs)
  then show ?case by simp
next
  case (2 pats rs d r es)
  then obtain cs where "reported pats rs es e cs" "2 \<le> length cs" by auto
  with 2 show ?case using reported_Cons [of pats rs es e cs d "File r"] by auto
next
  case (3 pats rs d ds es)
  from "3.prems" have wf: "valid_name d" "d \<notin> set (map fst es)" "wf_entries ds" "wf_entries es"
    by auto
  from "3.prems"(2) consider
      (here) "\<not> dir_ignored pats rs d" "e \<in> set (visit_files pats (rs @ [d]) ds)"
    | (below) "\<not> dir_ignored pats rs d" "e \<in> set (walk_dirs pats (rs @ [d]) ds)"
    | (rest) "e \<in> set (walk_dirs pats rs es)"
    by (auto split: if_splits)
  then show ?case
  proof cases
    case here
    from visit_files_reported [OF wf(3) here(2)] obtain f
      where "reported pats (rs @ [d]) ds e [f]" ..
    with here wf have "reported pats rs ((d, Dir ds) # es) e (d # [f])"
      by (intro reported_Dir)
    then show ?thesis by force
  next
    case below
    with "3.IH"(1) wf obtain cs where "reported pats (rs @ [d]) ds e cs" by blast
    with below wf have "reported pats rs ((d, Dir ds) # es) e (d # cs)"
      by (intro reported_Dir)
    moreover from \<open>reported pats (rs @ [d]) ds e cs\<close> have "cs \<noteq> []"
      by (simp add: reported_def)
    ultimately show ?thesis by (cases cs) force+
  next
    case rest
    with "3.IH"(2) wf obtain cs where "reported pats rs es e cs" "2 \<le> length cs" by blast
    with wf show ?thesis using reported_Cons [of pats rs es e cs d "Dir ds"] by auto
  qed
qed

lemma reported_split:
  assumes "reported pats rs es e cs" and "\<forall>c \<in> set rs. valid_name c"
  shows "str_split os_sep (path e) = rs @ cs"
proof -
  from assms have "rs @ cs \<noteq> []" "\<forall>c \<in> set (rs @ cs). valid_name c" "path e = join_all (rs @ cs)"
    by (auto simp: reported_def)
  then show ?thesis using join_all_valid [of "rs @ cs"] by simp
qed

lemma os_walk_reported:
  assumes "wf_entries es" and "e \<in> set (os_walk pats rs es)"
  shows "\<exists>cs. reported pats rs es e cs"
  using assms visit_files_reported [of es e pats rs] walk_dirs_reported [of es e pats rs]
  by (auto simp: os_walk_def)

lemma visit_files_distinct:
  assumes "wf_entries es" and "\<forall>c \<in> set rs. valid_name c"
  shows "distinct (map path (visit_files pats rs es))"
  using assms(1)
proof (induction es)
  case Nil
  then show ?case by simp
next
  case (Cons a es)
  obtain n x where a: "a = (n, x)" by (cases a)
  from Cons.prems a have wf: "wf_entries es" "n \<notin> set (map fst es)" "valid_name n"
    by (cases x; simp)+
  have new: "join_all (rs @ [n]) \<notin> path ` set (visit_files pats rs es)"
  proof
    assume "join_all (rs @ [n]) \<in> path ` set (visit_files pats rs es)"
    then obtain e where e: "e \<in> set (visit_files pats rs es)" "path e = join_all (rs @ [n])"
      by auto
    from visit_files_reported [OF wf(1) e(1)] obtain f where f: "reported pats rs es e [f]" ..
    from reported_split [OF f assms(2)] e(2) wf(3) assms(2)
    have "rs @ [f] = rs @ [n]" using join_all_valid [of "rs @ [n]"] by simp
    with f wf(2) show False by (simp add: reported_def)
  qed
  from Cons.IH [OF wf(1)] new a show ?case
    by (cases x) (auto simp: Let_def split: read_result.splits)
qed

lemma walk_dirs_distinct:
  "wf_entries es \<Longrightarrow> \<forall>c \<in> set rs. valid_name c \<Longrightarrow> distinct (map path (walk_dirs pats rs es))"
proof (induction pats rs es rule: walk_dirs.induct)
  case (1 pats rs)
  then show ?case by simp
next
  case (2 pats rs d r es)
  then show ?case by simp
next
  case (3 pats rs d ds es)
  from "3.prems" have wf: "valid_name d" "d \<notin> set (map fst es)" "wf_entries ds" "wf_entries es"
    by auto
  from wf "3.prems" have rs': "\<forall>c \<in> set (rs @ [d]). valid_name c" by simp
  show ?case
  proof (cases "dir_ignored pats rs d")
    case True
    with 3 wf show ?thesis by simp
  next
    case False
    let ?A = "visit_files pats (rs @ [d]) ds"
    let ?B = "walk_dirs pats (rs @ [d]) ds"
    let ?C = "walk_dirs pats rs es"
    have dA: "distinct (map path ?A)" using wf rs' by (intro visit_files_distinct)
    have dB: "distinct (map path ?B)" using "3.IH"(1) False wf rs' by blast
    have dC: "distinct (map path ?C)" using "3.IH"(2) wf "3.prems" by blast
    have A: "\<exists>f. str_split os_sep (path e) = rs @ [d, f]" if "e \<in> set ?A" for e
    proof -
      from visit_files_reported [OF wf(3) that] obtain f
        where "reported pats (rs @ [d]) ds e [f]" ..
      from reported_split [OF this rs'] show ?thesis by auto
    qed
    have B: "\<exists>cs. str_split os_sep (path e) = rs @ d # cs \<and> 2 \<le> length cs" if "e \<in> set ?B" for e
    proof -
      from walk_dirs_reported [OF wf(3) that] obtain cs
        where "reported pats (rs @ [d]) ds e cs" "2 \<le> length cs" by blast
      with reported_split [OF this(1) rs'] show ?thesis by auto
    qed
    have C: "\<exists>c cs. str_split os_sep (path e) = rs @ c # cs \<and> c \<noteq> d" if "e \<in> set ?C" for e
    proof -
      from walk_dirs_reported [OF wf(4) that] obtain cs
        where cs: "reported pats rs es e cs" by blast
      then obtain c cs' where "cs = c # cs'" "c \<in> set (map fst es)"
        by (cases cs) (auto simp: reported_def)
      with reported_split [OF cs "3.prems"(2)] wf(2) show ?thesis by auto
    qed
    have AB: "path ` set ?A \<inter> path ` set ?B = {}"
    proof (rule ccontr)
      assume "path ` set ?A \<inter> path ` set ?B \<noteq> {}"
      then obtain a b where "a \<in> set ?A" "b \<in> set ?B" "path a = path b" by force
      with A [of a] B [of b] show False by auto
    qed
    have AC: "path ` set ?A \<inter> path ` set ?C = {}"
    proof (rule ccontr)
      assume "path ` set ?A \<inter> path ` set ?C \<noteq> {}"
      then obtain a b where "a \<in> set ?A" "b \<in> set ?C" "path a = path b" by force
      with A [of a] C [of b] show False by auto
    qed
    have BC: "path ` set ?B \<inter> path ` set ?C = {}"
    proof (rule ccontr)
      assume "path ` set ?B \<inter> path ` set ?C \<noteq> {}"
      then obtain a b where "a \<in> set ?B" "b \<in> set ?C" "path a = path b" by force
      with B [of a] C [of b] show False by auto
    qed
    from False dA dB dC AB AC BC show ?thesis by (simp add: Int_Un_distrib)
  qed
qed

lemma os_walk_distinct:
  assumes "wf_entries es" and "\<forall>c \<in> set rs. valid_name c"
  shows "distinct (map path (os_walk pats rs es))"
proof -
  let ?A = "visit_files pats rs es"
  let ?B = "walk_dirs pats rs es"
  have "path ` set ?A \<inter> path ` set ?B = {}"
  proof (rule ccontr)
    assume "path ` set ?A \<inter> path ` set ?B \<noteq> {}"
    then obtain a b where ab: "a \<in> set ?A" "b \<in> set ?B" "path a = path b" by force
    from visit_files_reported [OF assms(1) ab(1)] obtain f where "reported pats rs es a [f]" ..
    from reported_split [OF this assms(2)] have a: "str_split os_sep (path a) = rs @ [f]" .
    from walk_dirs_reported [OF assms(1) ab(2)] obtain cs
      where cs: "reported pats rs es b cs" "2 \<le> length cs" by blast
    from reported_split [OF cs(1) assms(2)] a ab(3) cs(2) show False by auto
  qed
  with visit_files_distinct [OF assms, of pats] walk_dirs_distinct [OF assms, of pats]
  show ?thesis by (simp add: os_walk_def)
qed

section \<open>Facts about the collector\<close>

lemma lookup_valid:
  "wf_entries es \<Longrightarrow> lookup (Dir es) cs = Some x \<Longrightarrow> \<forall>c \<in> set cs. valid_name c"
proof (induction cs arbitrary: es)
  case Nil
  then show ?case by simp
next
  case (Cons c cs)
  from Cons.prems(2) obtain n where n: "map_of es c = Some n" "lookup n cs = Some x"
    by (auto split: option.splits)
  then have mem: "(c, n) \<in> set es" by (auto dest: map_of_SomeD)
  with Cons.prems(1) have vc: "valid_name c"
    using wf_entries_names [of es] by force
  show ?case
  proof (cases n)
    case (File r)
    with n(2) have "cs = []" by (cases cs) auto
    with vc show ?thesis by simp
  next
    case (Dir ds)
    with mem Cons.prems(1) have "wf_entries ds" by (auto dest: wf_entries_Dir)
    with Cons.IH [of ds] n(2) Dir vc show ?thesis by simp
  qed
qed

lemma lookup_wf: "wf_fs n \<Longrightarrow> lookup n cs = Some m \<Longrightarrow> wf_fs m"
proof (induction cs arbitrary: n)
  case Nil
  then show ?case by simp
next
  case (Cons c cs)
  show ?case
  proof (cases n)
    case (File r)
    with Cons.prems show ?thesis by simp
  next
    case (Dir es)
    with Cons.prems obtain k where k: "map_of es c = Some k" "lookup k cs = Some m"
      by (auto split: option.splits)
    then have mem: "(c, k) \<in> set es" by (auto dest: map_of_SomeD)
    have "wf_fs k"
    proof (cases k)
      case (File r)
      then show ?thesis by (simp add: wf_fs_def)
    next
      case (Dir ds)
      with mem Cons.prems(1) \<open>n = Dir es\<close> show ?thesis
        by (auto simp: wf_fs_def dest: wf_entries_Dir)
    qed
    with Cons.IH k(2) show ?thesis by blast
  qed
qed

lemma resolve_wf: "wf_fs r \<Longrightarrow> resolve r p = Some (Dir es) \<Longrightarrow> wf_entries es"
  using lookup_wf [of r _ "Dir es"] by (auto simp: resolve_def wf_fs_def)

lemma directory_mode:
  "load_ignore_patterns w = Inr pats \<Longrightarrow> resolve (root w) (full_path w p) = Some (Dir es) \<Longrightarrow>
     get_workspace_context w p = Success (os_walk pats [] es)"
  by (simp add: get_workspace_context_def)

lemma load_ignore_patterns_cases:
  "resolve (root w) (gitignore_path w) = None \<or> resolve (root w) (gitignore_path w) = Some (File (Text g))
     \<Longrightarrow> \<exists>pats. load_ignore_patterns w = Inr pats"
  by (auto simp: load_ignore_patterns_def)

lemma success_loaded:
  "get_workspace_context w p = Success ctx \<Longrightarrow> \<exists>pats. load_ignore_patterns w = Inr pats"
  by (cases "load_ignore_patterns w") (auto simp: get_workspace_context_def)

lemma str_split_no_sep_parts: "\<forall>x \<in> set (str_split d s). d \<notin> set x"
proof (induction s)
  case Nil
  show ?case by simp
next
  case (Cons c s)
  obtain w ws where "str_split d s = w # ws"
    using str_split_not_Nil [of d s] by (cases "str_split d s") auto
  with Cons show ?case by auto
qed

lemma basename_no_sep: "os_sep \<notin> set (os_path_basename p)"
  using str_split_no_sep_parts [of os_sep p] str_split_not_Nil [of os_sep p]
  by (simp add: os_path_basename_def)

lemma str_strip_empty: "str_strip l = [] \<longleftrightarrow> is_blank l"
proof
  assume "str_strip l = []"
  then have "dropWhile isspace (rev (dropWhile isspace l)) = []"
    by (simp add: str_strip_def)
  then have all: "\<forall>c \<in> set (dropWhile isspace l). isspace c"
    by simp
  have "dropWhile isspace l = []"
  proof (rule ccontr)
    assume ne: "dropWhile isspace l \<noteq> []"
    then have "\<not> isspace (hd (dropWhile isspace l))" by (rule hd_dropWhile)
    moreover from ne have "hd (dropWhile isspace l) \<in> set (dropWhile isspace l)" by simp
    ultimately show False using all by blast
  qed
  then show "is_blank l" by (simp add: is_blank_def)
next
  assume "is_blank l"
  then have "dropWhile isspace l = []" by (simp add: is_blank_def)
  then show "str_strip l = []" by (simp add: str_strip_def del: dropWhile_eq_Nil_conv)
qed

lemma startswith_hash: "startswith l ''#'' \<longleftrightarrow> is_comment l"
  by (cases l) (auto simp: is_comment_def)

lemma comprehension_filter: "[f x. x \<leftarrow> xs, P x] = map f (filter P xs)"
  by (induction xs) auto

lemma load_ignore_patterns_Text:
  "resolve (root w) (gitignore_path w) = Some (File (Text t)) \<Longrightarrow>
     load_ignore_patterns w = Inr (spec_patterns t)"
  by (simp add: load_ignore_patterns_def spec_patterns_def comprehension_filter
        str_strip_empty startswith_hash)

lemma visit_files_readable_only:
  "visit_files pats rs (readable_only es) = visit_files pats rs es"
  by (induction es rule: readable_only.induct) (simp_all add: Let_def)

lemma walk_dirs_readable_only:
  "walk_dirs pats rs (readable_only es) = walk_dirs pats rs es"
  by (induction pats rs es rule: walk_dirs.induct)
     (simp_all add: visit_files_readable_only, (case_tac r; simp))

lemma os_walk_readable_only: "os_walk pats rs (readable_only es) = os_walk pats rs es"
  by (simp add: os_walk_def visit_files_readable_only walk_dirs_readable_only)

lemma os_walk_absent:
  assumes "wf_entries es" and "lookup (Dir es) cs = Some (File r)"
    and "\<And>e. reported pats [] es e cs \<Longrightarrow> False"
  shows "join_all cs \<notin> path ` set (os_walk pats [] es)"
proof
  assume "join_all cs \<in> path ` set (os_walk pats [] es)"
  then obtain e where e: "e \<in> set (os_walk pats [] es)" "path e = join_all cs" by auto
  from os_walk_reported [OF assms(1) e(1)] obtain cs' where r: "reported pats [] es e cs'" ..
  from assms(2) have ne: "cs \<noteq> []" by (cases cs) auto
  from lookup_valid [OF assms(1,2)] have v: "\<forall>c \<in> set cs. valid_name c" .
  from r have "cs' \<noteq> []" "\<forall>c \<in> set cs'. valid_name c" "path e = join_all cs'"
    by (auto simp: reported_def)
  with ne v e(2) have "cs' = cs" by (intro join_all_inj) auto
  with r assms(3) show False by blast
qed

section \<open>A path that names nothing\<close>

text \<open>
  Claim C1: for a path argument that names no existing file system object, such as
  \<open>missing.txt\<close>, the collector returns a failure whose reason describes the
  resolution error, never a success. The code does otherwise: in \<open>state_plain\<close> the
  path \<open>/proj/missing.txt\<close> names nothing, no \<open>.gitignore\<close> is there, and the
  result is a success with no entry.
\<close>

theorem missing_path_is_empty_success:
  "resolve (root state_plain) (full_path state_plain ''missing.txt'') = None
   \<and> get_workspace_context state_plain ''missing.txt'' = Success []"
  by code_simp

section \<open>Ignored directories\<close>

text \<open>
  Claim C2: when an ignore pattern matches the name of a subdirectory, no file beneath
  that subdirectory appears in the result of a directory scan, at any depth. A pattern
  \<open>q\<close> matches the name \<open>d\<close> as the code tests it, by \<open>fnmatch\<close> once the separators
  that end \<open>q\<close> are stripped. The file is reached from the scanned directory through the
  directories \<open>ds\<close>, then \<open>d\<close>, then \<open>ds'\<close>; the path under which the scan would
  report it is absent from the result. In particular, with \<open>a.txt\<close> holding
  \<open>hello\<close>, a \<open>.gitignore\<close> whose only line is \<open>b/\<close> and the file \<open>b/c.txt\<close>, the
  scan of the working directory gives the one entry for \<open>a.txt\<close>.
\<close>

theorem ignored_directory_hides_files:
  "(wf_fs (root w) \<and> load_ignore_patterns w = Inr pats
      \<and> resolve (root w) (full_path w p) = Some (Dir es)
      \<and> lookup (Dir es) (ds @ d # ds' @ [f]) = Some (File r)
      \<and> q \<in> set pats \<and> fnmatch d (rstrip_sep q)
    \<longrightarrow> (\<exists>ctx. get_workspace_context w p = Success ctx
           \<and> join_all (ds @ d # ds' @ [f]) \<notin> path ` set ctx))
   \<and> get_workspace_context state_b ''.'' = Success [\<lparr>path = ''a.txt'', content = ''hello''\<rparr>]"
proof (intro conjI impI)
  assume a: "wf_fs (root w) \<and> load_ignore_patterns w = Inr pats
      \<and> resolve (root w) (full_path w p) = Some (Dir es)
      \<and> lookup (Dir es) (ds @ d # ds' @ [f]) = Some (File r)
      \<and> q \<in> set pats \<and> fnmatch d (rstrip_sep q)"
  then have wf: "wf_entries es" by (auto dest: resolve_wf)
  have "join_all (ds @ d # ds' @ [f]) \<notin> path ` set (os_walk pats [] es)"
  proof (rule os_walk_absent [OF wf])
    show "lookup (Dir es) (ds @ d # ds' @ [f]) = Some (File r)" using a by simp
  next
    fix e assume "reported pats [] es e (ds @ d # ds' @ [f])"
    then have "\<forall>x \<in> set (butlast (ds @ d # ds' @ [f])). \<forall>p \<in> set pats. \<not> fnmatch x (rstrip_sep p)"
      by (simp add: reported_def)
    then have "\<forall>p \<in> set pats. \<not> fnmatch d (rstrip_sep p)"
      by (simp add: butlast_append)
    with a show False by blast
  qed
  with a show "\<exists>ctx. get_workspace_context w p = Success ctx
           \<and> join_all (ds @ d # ds' @ [f]) \<notin> path ` set ctx"
    by (simp add: directory_mode)
next
  show "get_workspace_context state_b ''.'' = Success [\<lparr>path = ''a.txt'', content = ''hello''\<rparr>]"
    by code_simp
qed

text \<open>
  Claim C2, at a concrete state: \<open>b/d/e.txt\<close> lies two levels below the directory
  \<open>b\<close> that the pattern \<open>b/\<close> matches.
\<close>

theorem ignored_directory_hides_files_witness:
  "wf_fs (root state_nested) \<and> load_ignore_patterns state_nested = Inr [''b/'']
   \<and> resolve (root state_nested) (full_path state_nested ''.'') = Some (Dir proj_entries)
   \<and> lookup (Dir proj_entries) ([] @ ''b'' # [''d''] @ [''e.txt'']) = Some (File (Text ''e''))
   \<and> ''b/'' \<in> set [''b/''] \<and> fnmatch ''b'' (rstrip_sep ''b/'')
   \<and> (\<exists>ctx. get_workspace_context state_nested ''.'' = Success ctx
         \<and> join_all ([] @ ''b'' # [''d''] @ [''e.txt'']) \<notin> path ` set ctx)"
proof -
  have h: "wf_fs (root state_nested) \<and> load_ignore_patterns state_nested = Inr [''b/'']
   \<and> resolve (root state_nested) (full_path state_nested ''.'') = Some (Dir proj_entries)
   \<and> lookup (Dir proj_entries) ([] @ ''b'' # [''d''] @ [''e.txt'']) = Some (File (Text ''e''))
   \<and> ''b/'' \<in> set [''b/''] \<and> fnmatch ''b'' (rstrip_sep ''b/'')"
    by code_simp
  with ignored_directory_hides_files [of state_nested "[''b/'']" "''.''" proj_entries "[]" "''b''" "[''d'']" "''e.txt''" "Text ''e''" "''b/''"]
  show ?thesis by blast
qed

section \<open>A single file\<close>

text \<open>
  Claim C3, as stated, fails: the path \<open>a.txt\<close> names a regular file whose text is
  \<open>hello\<close>, but the \<open>.gitignore\<close> of the working directory is read before anything
  else and cannot be opened, and the result is the failure with the description of
  that error.
\<close>

theorem text_file_behind_locked_gitignore:
  "resolve (root state_locked) (full_path state_locked ''a.txt'') = Some (File (Text ''hello''))
   \<and> get_workspace_context state_locked ''a.txt'' = Failure (permission_denied ''/proj/.gitignore'')"
  by code_simp

text \<open>
  Claim C3, amended: when the \<open>.gitignore\<close> of the working directory is absent or can
  be read as text, and the path argument names a regular file whose content decodes
  to the text \<open>t\<close>, the result is a success with exactly one entry; its path is the
  base name of the resolved path, which holds no separator, and its content is \<open>t\<close>.
\<close>

theorem single_file_entry:
  assumes "resolve (root w) (gitignore_path w) = None
           \<or> resolve (root w) (gitignore_path w) = Some (File (Text g))"
    and "resolve (root w) (full_path w p) = Some (File (Text t))"
  shows "get_workspace_context w p
           = Success [\<lparr>path = os_path_basename (full_path w p), content = t\<rparr>]
         \<and> os_sep \<notin> set (os_path_basename (full_path w p))"
proof -
  from load_ignore_patterns_cases [OF assms(1)] obtain pats
    where "load_ignore_patterns w = Inr pats" ..
  with assms(2) show ?thesis
    by (simp add: get_workspace_context_def basename_no_sep)
qed

text \<open>Claim C3, amended, at a concrete state: the file \<open>b/c.txt\<close> is reported as \<open>c.txt\<close>.\<close>

theorem single_file_entry_witness:
  "(resolve (root state_b) (gitignore_path state_b) = None
     \<or> resolve (root state_b) (gitignore_path state_b) = Some (File (Text (''b/'' @ [CHR 0x0A]))))
   \<and> resolve (root state_b) (full_path state_b ''b/c.txt'') = Some (File (Text ''c''))
   \<and> get_workspace_context state_b ''b/c.txt'' = Success [\<lparr>path = ''c.txt'', content = ''c''\<rparr>]
   \<and> os_sep \<notin> set ''c.txt''"
proof -
  have g: "resolve (root state_b) (gitignore_path state_b) = None
     \<or> resolve (root state_b) (gitignore_path state_b) = Some (File (Text (''b/'' @ [CHR 0x0A])))"
    by code_simp
  have f: "resolve (root state_b) (full_path state_b ''b/c.txt'') = Some (File (Text ''c''))"
    by code_simp
  have b: "os_path_basename (full_path state_b ''b/c.txt'') = ''c.txt''"
    by code_simp
  from single_file_entry [OF g f] g f show ?thesis
    unfolding b by blast
qed

text \<open>
  Claim C4, as stated, fails: \<open>data.bin\<close> is a regular file that does not decode, but
  the \<open>.gitignore\<close> of the working directory cannot be opened, and the reason of the
  failure is the description of that error, not the fixed string.
\<close>

theorem unreadable_file_behind_locked_gitignore:
  "resolve (root state_locked) (full_path state_locked ''data.bin'')
     = Some (File (Unreadable ''invalid start byte''))
   \<and> get_workspace_context state_locked ''data.bin''
       = Failure (permission_denied ''/proj/.gitignore'')
   \<and> permission_denied ''/proj/.gitignore'' \<noteq> ''Cannot read file: binary or unreadable''"
  by code_simp

text \<open>
  Claim C4, amended: when the \<open>.gitignore\<close> of the working directory is absent or can
  be read as text, and the path argument names a regular file that fails to open or to
  decode, the result is the failure whose reason is exactly
  \<open>Cannot read file: binary or unreadable\<close>.
\<close>

theorem unreadable_file_reason:
  assumes "resolve (root w) (gitignore_path w) = None
           \<or> resolve (root w) (gitignore_path w) = Some (File (Text g))"
    and "resolve (root w) (full_path w p) = Some (File (Unreadable msg))"
  shows "get_workspace_context w p = Failure ''Cannot read file: binary or unreadable''"
proof -
  from load_ignore_patterns_cases [OF assms(1)] obtain pats
    where "load_ignore_patterns w = Inr pats" ..
  with assms(2) show ?thesis
    by (simp add: get_workspace_context_def)
qed

text \<open>Claim C4, amended, at a concrete state: the file \<open>sub/data.bin\<close> does not decode.\<close>

theorem unreadable_file_reason_witness:
  "(resolve (root state_nested) (gitignore_path state_nested) = None
     \<or> resolve (root state_nested) (gitignore_path state_nested)
         = Some (File (Text (''# build'' @ [CHR 0x0A] @ [CHR 0x0A] @ ''  b/  '' @ [CHR 0x0A]))))
   \<and> resolve (root state_nested) (full_path state_nested ''sub/data.bin'')
       = Some (File (Unreadable ''invalid start byte''))
   \<and> get_workspace_context state_nested ''sub/data.bin''
       = Failure ''Cannot read file: binary or unreadable''"
proof -
  have g: "resolve (root state_nested) (gitignore_path state_nested) = None
     \<or> resolve (root state_nested) (gitignore_path state_nested)
         = Some (File (Text (''# build'' @ [CHR 0x0A] @ [CHR 0x0A] @ ''  b/  '' @ [CHR 0x0A])))"
    by code_simp
  have f: "resolve (root state_nested) (full_path state_nested ''sub/data.bin'')
       = Some (File (Unreadable ''invalid start byte''))"
    by code_simp
  from unreadable_file_reason [OF g f] g f show ?thesis by blast
qed

section \<open>Scanning a directory\<close>

text \<open>
  Claim C5: in the successful result of a directory scan, no entry has a file name that
  contains, once in lower case, one of \<open>.git\<close>, \<open>.pyc\<close>, \<open>.env\<close> and
  \<open>__pycache__\<close>, whatever the ignore rules are. In particular the scan of a
  directory that holds only \<open>secret.env\<close> succeeds with no entry.
\<close>

theorem builtin_names_excluded:
  "(wf_fs (root w) \<and> resolve (root w) (full_path w p) = Some (Dir es)
      \<and> get_workspace_context w p = Success ctx \<and> e \<in> set ctx \<and> b \<in> set builtin_excluded
    \<longrightarrow> \<not> str_in b (str_lower (os_path_basename (path e))))
   \<and> get_workspace_context state_env ''.'' = Success []"
proof (intro conjI impI)
  assume a: "wf_fs (root w) \<and> resolve (root w) (full_path w p) = Some (Dir es)
      \<and> get_workspace_context w p = Success ctx \<and> e \<in> set ctx \<and> b \<in> set builtin_excluded"
  then have wf: "wf_entries es" by (auto dest: resolve_wf)
  from a have res: "resolve (root w) (full_path w p) = Some (Dir es)"
    and ok: "get_workspace_context w p = Success ctx" by simp_all
  from ok obtain pats where "load_ignore_patterns w = Inr pats"
    using success_loaded by blast
  from directory_mode [OF this res] ok have "ctx = os_walk pats [] es" by simp
  with a have "e \<in> set (os_walk pats [] es)" by simp
  from os_walk_reported [OF wf this] obtain cs where r: "reported pats [] es e cs" ..
  then have cs: "cs \<noteq> []" "\<forall>c \<in> set cs. valid_name c" "path e = join_all cs"
    and "\<not> file_ignored pats (butlast cs) (last cs)"
    by (auto simp: reported_def)
  then have "\<not> str_in b (str_lower (last cs))"
    using a by (auto simp: file_ignored_def)
  with cs show "\<not> str_in b (str_lower (os_path_basename (path e)))"
    by (simp add: basename_join_all)
next
  show "get_workspace_context state_env ''.'' = Success []" by code_simp
qed

text \<open>Claim C5, at a concrete state and for the entry \<open>sub/k.txt\<close>.\<close>

theorem builtin_names_excluded_witness:
  "wf_fs (root state_nested)
   \<and> resolve (root state_nested) (full_path state_nested ''.'') = Some (Dir proj_entries)
   \<and> get_workspace_context state_nested ''.''
       = Success [\<lparr>path = ''a.txt'', content = ''hello''\<rparr>, \<lparr>path = ''sub/k.txt'', content = ''kk''\<rparr>]
   \<and> \<lparr>path = ''sub/k.txt'', content = ''kk''\<rparr>
       \<in> set [\<lparr>path = ''a.txt'', content = ''hello''\<rparr>, \<lparr>path = ''sub/k.txt'', content = ''kk''\<rparr>]
   \<and> ''.env'' \<in> set builtin_excluded
   \<and> \<not> str_in ''.env'' (str_lower (os_path_basename (path \<lparr>path = ''sub/k.txt'', content = ''kk''\<rparr>)))"
proof -
  have h: "wf_fs (root state_nested)
   \<and> resolve (root state_nested) (full_path state_nested ''.'') = Some (Dir proj_entries)
   \<and> get_workspace_context state_nested ''.''
       = Success [\<lparr>path = ''a.txt'', content = ''hello''\<rparr>, \<lparr>path = ''sub/k.txt'', content = ''kk''\<rparr>]
   \<and> \<lparr>path = ''sub/k.txt'', content = ''kk''\<rparr>
       \<in> set [\<lparr>path = ''a.txt'', content = ''hello''\<rparr>, \<lparr>path = ''sub/k.txt'', content = ''kk''\<rparr>]
   \<and> ''.env'' \<in> set builtin_excluded"
    by code_simp
  with builtin_names_excluded [of state_nested "''.''" proj_entries
      "[\<lparr>path = ''a.txt'', content = ''hello''\<rparr>, \<lparr>path = ''sub/k.txt'', content = ''kk''\<rparr>]"
      "\<lparr>path = ''sub/k.txt'', content = ''kk''\<rparr>" "''.env''"]
  show ?thesis by blast
qed

text \<open>
  Claim C6, as stated, fails: the working directory can be listed and holds the file
  \<open>data.bin\<close>, which does not decode, but its \<open>.gitignore\<close> is read before the scan
  and cannot be opened, and the result of the scan is the failure with the description
  of that error.
\<close>

theorem scan_behind_locked_gitignore:
  "resolve (root state_locked) (full_path state_locked ''.'')
     = Some (Dir
        [(''.gitignore'', File (Unreadable (permission_denied ''/proj/.gitignore''))),
         (''a.txt'', File (Text ''hello'')),
         (''data.bin'', File (Unreadable ''invalid start byte'')),
         (''secret.env'', File (Text ''KEY=1''))])
   \<and> get_workspace_context state_locked ''.''
       = Failure (permission_denied ''/proj/.gitignore'')"
  by code_simp

text \<open>
  Claim C6, amended: when the \<open>.gitignore\<close> of the working directory is absent or can
  be read as text, so that the rules \<open>pats\<close> are loaded, and the path argument names a
  directory, a file that fails to open or to decode is left out of the entries without
  any error: the result is a success, it is the result for the same directory without
  its unreadable files, and the path of no unreadable file is among its entries.
\<close>

theorem unreadable_files_skipped:
  "wf_fs (root w) \<and> load_ignore_patterns w = Inr pats
     \<and> resolve (root w) (full_path w p) = Some (Dir es)
   \<longrightarrow> (\<exists>ctx. get_workspace_context w p = Success ctx
          \<and> ctx = os_walk pats [] (readable_only es)
          \<and> (\<forall>cs msg. lookup (Dir es) cs = Some (File (Unreadable msg))
                \<longrightarrow> join_all cs \<notin> path ` set ctx))"
proof
  assume a: "wf_fs (root w) \<and> load_ignore_patterns w = Inr pats
     \<and> resolve (root w) (full_path w p) = Some (Dir es)"
  then have wf: "wf_entries es" by (auto dest: resolve_wf)
  have "join_all cs \<notin> path ` set (os_walk pats [] es)"
    if l: "lookup (Dir es) cs = Some (File (Unreadable msg))" for cs msg
  proof (rule os_walk_absent [OF wf l])
    fix e assume "reported pats [] es e cs"
    with l show False by (simp add: reported_def)
  qed
  then have "\<forall>cs msg. lookup (Dir es) cs = Some (File (Unreadable msg))
                \<longrightarrow> join_all cs \<notin> path ` set (os_walk pats [] es)"
    by blast
  moreover from a have "get_workspace_context w p = Success (os_walk pats [] es)"
    by (simp add: directory_mode)
  ultimately show "\<exists>ctx. get_workspace_context w p = Success ctx
          \<and> ctx = os_walk pats [] (readable_only es)
          \<and> (\<forall>cs msg. lookup (Dir es) cs = Some (File (Unreadable msg))
                \<longrightarrow> join_all cs \<notin> path ` set ctx)"
    by (simp add: os_walk_readable_only)
qed

text \<open>
  Claim C6, amended, at a concrete state: the scan of \<open>sub\<close> leaves \<open>data.bin\<close> out.
\<close>

theorem unreadable_files_skipped_witness:
  "wf_fs (root state_nested) \<and> load_ignore_patterns state_nested = Inr [''b/'']
   \<and> resolve (root state_nested) (full_path state_nested ''sub'') = Some (Dir sub_entries)
   \<and> lookup (Dir sub_entries) [''data.bin''] = Some (File (Unreadable ''invalid start byte''))
   \<and> get_workspace_context state_nested ''sub''
       = Success [\<lparr>path = ''k.txt'', content = ''kk''\<rparr>]
   \<and> join_all [''data.bin''] \<notin> path ` set [\<lparr>path = ''k.txt'', content = ''kk''\<rparr>]"
proof -
  have h: "wf_fs (root state_nested) \<and> load_ignore_patterns state_nested = Inr [''b/'']
   \<and> resolve (root state_nested) (full_path state_nested ''sub'') = Some (Dir sub_entries)"
    by code_simp
  have l: "lookup (Dir sub_entries) [''data.bin''] = Some (File (Unreadable ''invalid start byte''))"
    by code_simp
  have g: "get_workspace_context state_nested ''sub''
       = Success [\<lparr>path = ''k.txt'', content = ''kk''\<rparr>]"
    by code_simp
  from unreadable_files_skipped [of state_nested "[''b/'']" "''sub''" sub_entries] h
  obtain ctx where c: "get_workspace_context state_nested ''sub'' = Success ctx"
    "\<forall>cs msg. lookup (Dir sub_entries) cs = Some (File (Unreadable msg))
       \<longrightarrow> join_all cs \<notin> path ` set ctx"
    by blast
  from c(1) g have "ctx = [\<lparr>path = ''k.txt'', content = ''kk''\<rparr>]" by simp
  with c(2) l have "join_all [''data.bin''] \<notin> path ` set [\<lparr>path = ''k.txt'', content = ''kk''\<rparr>]"
    by blast
  with h l g show ?thesis by blast
qed

text \<open>
  Claim C7: for a directory scan the rules come from the file \<open>.gitignore\<close> right
  under the current working directory, whatever directory is scanned; when that file
  is absent the rule set is empty and the scan succeeds; otherwise the patterns are the
  lines that are neither blank nor comments, trimmed, with each slash turned into the
  separator of the host.
\<close>

theorem rules_from_working_directory:
  "gitignore_path w = os_path_join (getcwd w) ''.gitignore''
   \<and> (resolve (root w) (full_path w p) = Some (Dir es) \<longrightarrow>
        (resolve (root w) (gitignore_path w) = None
           \<longrightarrow> get_workspace_context w p = Success (os_walk [] [] es))
        \<and> (resolve (root w) (gitignore_path w) = Some (File (Text t))
           \<longrightarrow> get_workspace_context w p = Success (os_walk (spec_patterns t) [] es)))"
proof (intro conjI impI)
  show "gitignore_path w = os_path_join (getcwd w) ''.gitignore''"
    by (simp add: gitignore_path_def)
next
  assume "resolve (root w) (full_path w p) = Some (Dir es)"
    and "resolve (root w) (gitignore_path w) = None"
  then show "get_workspace_context w p = Success (os_walk [] [] es)"
    by (simp add: directory_mode load_ignore_patterns_def)
next
  assume "resolve (root w) (full_path w p) = Some (Dir es)"
    and "resolve (root w) (gitignore_path w) = Some (File (Text t))"
  then show "get_workspace_context w p = Success (os_walk (spec_patterns t) [] es)"
    by (simp add: directory_mode load_ignore_patterns_Text)
qed

text \<open>
  Claim C7, at two concrete states: one without a \<open>.gitignore\<close>; one where the
  scanned directory \<open>sub\<close> has a \<open>.gitignore\<close> of its own that names \<open>k.txt\<close>,
  which is reported all the same, while the rule \<open>b/\<close> of the working directory
  hides \<open>sub/b/z.txt\<close>.
\<close>

theorem rules_from_working_directory_witness:
  "resolve (root state_plain) (full_path state_plain ''.'')
     = Some (Dir [(''a.txt'', File (Text ''hello''))])
   \<and> resolve (root state_plain) (gitignore_path state_plain) = None
   \<and> get_workspace_context state_plain ''.'' = Success [\<lparr>path = ''a.txt'', content = ''hello''\<rparr>]
   \<and> resolve (root state_nested) (full_path state_nested ''sub'') = Some (Dir sub_entries)
   \<and> resolve (root state_nested) (gitignore_path state_nested)
       = Some (File (Text (''# build'' @ [CHR 0x0A] @ [CHR 0x0A] @ ''  b/  '' @ [CHR 0x0A])))
   \<and> spec_patterns (''# build'' @ [CHR 0x0A] @ [CHR 0x0A] @ ''  b/  '' @ [CHR 0x0A]) = [''b/'']
   \<and> get_workspace_context state_nested ''sub'' = Success [\<lparr>path = ''k.txt'', content = ''kk''\<rparr>]"
proof -
  have p1: "resolve (root state_plain) (full_path state_plain ''.'')
     = Some (Dir [(''a.txt'', File (Text ''hello''))])"
    and p2: "resolve (root state_plain) (gitignore_path state_plain) = None"
    and p3: "os_walk [] [] [(''a.txt'', File (Text ''hello''))]
       = [\<lparr>path = ''a.txt'', content = ''hello''\<rparr>]"
    by code_simp+
  have n1: "resolve (root state_nested) (full_path state_nested ''sub'') = Some (Dir sub_entries)"
    and n2: "resolve (root state_nested) (gitignore_path state_nested)
       = Some (File (Text (''# build'' @ [CHR 0x0A] @ [CHR 0x0A] @ ''  b/  '' @ [CHR 0x0A])))"
    and n3: "spec_patterns (''# build'' @ [CHR 0x0A] @ [CHR 0x0A] @ ''  b/  '' @ [CHR 0x0A]) = [''b/'']"
    and n4: "os_walk [''b/''] [] sub_entries = [\<lparr>path = ''k.txt'', content = ''kk''\<rparr>]"
    by code_simp+
  from rules_from_working_directory [of state_plain "''.''" "[(''a.txt'', File (Text ''hello''))]"] p1 p2
  have a: "get_workspace_context state_plain ''.'' = Success (os_walk [] [] [(''a.txt'', File (Text ''hello''))])"
    by blast
  from rules_from_working_directory [of state_nested "''sub''" sub_entries
      "''# build'' @ [CHR 0x0A] @ [CHR 0x0A] @ ''  b/  '' @ [CHR 0x0A]"] n1 n2
  have b: "get_workspace_context state_nested ''sub''
      = Success (os_walk (spec_patterns (''# build'' @ [CHR 0x0A] @ [CHR 0x0A] @ ''  b/  '' @ [CHR 0x0A])) [] sub_entries)"
    by blast
  from a b p1 p2 p3 n1 n2 n3 n4 show ?thesis by simp
qed

text \<open>
  Claim C9: in every successful result, no two entries have the same path.
\<close>

theorem entries_unique_by_path:
  assumes "wf_fs (root w)" and "get_workspace_context w p = Success ctx"
  shows "distinct (map path ctx)"
proof -
  from assms(2) obtain pats where l: "load_ignore_patterns w = Inr pats"
    using success_loaded by blast
  show ?thesis
  proof (cases "resolve (root w) (full_path w p)")
    case None
    with l assms(2) show ?thesis by (auto simp: get_workspace_context_def)
  next
    case (Some n)
    show ?thesis
    proof (cases n)
      case (File r)
      with Some l assms(2) show ?thesis
        by (cases r) (auto simp: get_workspace_context_def)
    next
      case (Dir es)
      with Some assms(1) have wf: "wf_entries es" by (auto dest: resolve_wf)
      from directory_mode [OF l] Some Dir assms(2) have "ctx = os_walk pats [] es" by simp
      with os_walk_distinct [OF wf, of "[]" pats] show ?thesis by simp
    qed
  qed
qed

text \<open>Claim C9, at a concrete state.\<close>

theorem entries_unique_by_path_witness:
  "wf_fs (root state_nested)
   \<and> get_workspace_context state_nested ''.''
       = Success [\<lparr>path = ''a.txt'', content = ''hello''\<rparr>, \<lparr>path = ''sub/k.txt'', content = ''kk''\<rparr>]
   \<and> distinct (map path [\<lparr>path = ''a.txt'', content = ''hello''\<rparr>, \<lparr>path = ''sub/k.txt'', content = ''kk''\<rparr>])"
proof -
  have h: "wf_fs (root state_nested)"
    and g: "get_workspace_context state_nested ''.''
       = Success [\<lparr>path = ''a.txt'', content = ''hello''\<rparr>, \<lparr>path = ''sub/k.txt'', content = ''kk''\<rparr>]"
    by code_simp+
  from entries_unique_by_path [OF h g] h g show ?thesis by blast
qed

section \<open>No filter on a single file\<close>

text \<open>
  Claim C10, as stated, fails: \<open>secret.env\<close> is a regular file that reads as text, but
  the \<open>.gitignore\<close> of the working directory cannot be opened and the result is a
  failure.
\<close>

theorem env_file_behind_locked_gitignore:
  "resolve (root state_locked) (full_path state_locked ''secret.env'') = Some (File (Text ''KEY=1''))
   \<and> get_workspace_context state_locked ''secret.env''
       = Failure (permission_denied ''/proj/.gitignore'')"
  by code_simp

text \<open>
  Claim C10, amended: once the rules are loaded (the \<open>.gitignore\<close> of the working
  directory is absent or can be read as text), a path argument that names a regular
  file readable as text gives that file's entry even when the tests of the directory
  scan would reject its name, by a pattern or by a built-in substring. In particular
  \<open>secret.env\<close> is returned when it is named, and left out when its directory is
  scanned.
\<close>

theorem single_file_not_filtered:
  "(load_ignore_patterns w = Inr pats
      \<and> resolve (root w) (full_path w p) = Some (File (Text t))
      \<and> (file_ignored pats [] (os_path_basename (full_path w p))
           \<or> part_ignored pats (os_path_basename (full_path w p)))
    \<longrightarrow> get_workspace_context w p
          = Success [\<lparr>path = os_path_basename (full_path w p), content = t\<rparr>])
   \<and> get_workspace_context state_env ''secret.env''
       = Success [\<lparr>path = ''secret.env'', content = ''KEY=1''\<rparr>]
   \<and> get_workspace_context state_env ''.'' = Success []"
proof (intro conjI impI)
  assume "load_ignore_patterns w = Inr pats
      \<and> resolve (root w) (full_path w p) = Some (File (Text t))
      \<and> (file_ignored pats [] (os_path_basename (full_path w p))
           \<or> part_ignored pats (os_path_basename (full_path w p)))"
  then show "get_workspace_context w p
          = Success [\<lparr>path = os_path_basename (full_path w p), content = t\<rparr>]"
    by (simp add: get_workspace_context_def)
next
  show "get_workspace_context state_env ''secret.env''
       = Success [\<lparr>path = ''secret.env'', content = ''KEY=1''\<rparr>]"
    by code_simp
next
  show "get_workspace_context state_env ''.'' = Success []" by code_simp
qed

text \<open>
  Claim C10, amended, at a concrete state: the pattern \<open>*.txt\<close> matches \<open>a.txt\<close>,
  which is returned when named and left out of the scan.
\<close>

theorem single_file_not_filtered_witness:
  "load_ignore_patterns state_star = Inr [''*.txt'']
   \<and> resolve (root state_star) (full_path state_star ''a.txt'') = Some (File (Text ''hello''))
   \<and> (file_ignored [''*.txt''] [] ''a.txt'' \<or> part_ignored [''*.txt''] ''a.txt'')
   \<and> get_workspace_context state_star ''a.txt'' = Success [\<lparr>path = ''a.txt'', content = ''hello''\<rparr>]
   \<and> get_workspace_context state_star ''.'' = Success []"
proof -
  have b: "os_path_basename (full_path state_star ''a.txt'') = ''a.txt''"
    by code_simp
  have h: "load_ignore_patterns state_star = Inr [''*.txt'']
   \<and> resolve (root state_star) (full_path state_star ''a.txt'') = Some (File (Text ''hello''))
   \<and> (file_ignored [''*.txt''] [] ''a.txt'' \<or> part_ignored [''*.txt''] ''a.txt'')"
    by code_simp
  have d: "get_workspace_context state_star ''.'' = Success []"
    by code_simp
  from single_file_not_filtered [of state_star "[''*.txt'']" "''a.txt''" "''hello''"] h d
  show ?thesis unfolding b by blast
qed

end
